theory Spec2Isabelle
  imports Main "HOL-Library.Word" "HOL-Library.Sublist"
begin

section \<open>The feed package of flashlight: data model\<close>

text \<open>
  The embedding follows \<^verbatim>\<open>feed.go\<close>. A Go string is its sequence of bytes
  (\<^typ>\<open>string\<close>). A Go pointer is an \<^typ>\<open>'a option\<close>, \<^term>\<open>None\<close> being
  \<^verbatim>\<open>nil\<close>: \<^verbatim>\<open>encoding/json\<close> stores \<^verbatim>\<open>nil\<close> for a JSON
  \<^verbatim>\<open>null\<close> in \<^verbatim>\<open>map[string]*Source\<close> and in \<^verbatim>\<open>[]*FeedItem\<close>.
  A run-time panic is a value of type \<open>fault\<close>.
\<close>

type_synonym error = string

datatype fault = NilDereference | TypeAssertion | IndexOutOfRange

text \<open>
  What \<^verbatim>\<open>encoding/json\<close> stores in an \<^verbatim>\<open>interface{}\<close>: \<^verbatim>\<open>nil\<close>,
  \<^verbatim>\<open>bool\<close>, \<^verbatim>\<open>float64\<close> (kept as its 64 bits), \<^verbatim>\<open>string\<close>,
  \<^verbatim>\<open>[]interface{}\<close> and \<^verbatim>\<open>map[string]interface{}\<close>.
\<close>

datatype json = JNull | JBool bool | JNumber "64 word" | JString string
  | JArray "json list" | JObject "(string \<times> json) list"

record Source =
  FeedUrl :: string
  Title :: string
  Url :: string
  ExcludeFromAll :: bool
  Entries :: "int list"

record FeedItem =
  Title :: string
  Link :: string
  Image :: string
  Meta :: "string \<rightharpoonup> json"
  Content :: string
  Source :: string
  Description :: string

type_synonym FeedItems = "FeedItem option list"

text \<open>
  \<open>Items\<close> is \<^term>\<open>None\<close> for the \<^verbatim>\<open>nil\<close> map, which \<^verbatim>\<open>FeedByName\<close>
  tests for. Reading a \<^verbatim>\<open>nil\<close> map is reading an empty one, so \<open>Feeds\<close> and
  \<open>Meta\<close> are plain maps.
\<close>

record Feed =
  Feeds :: "string \<rightharpoonup> Source option"
  Entries :: FeedItems
  Items :: "(string \<rightharpoonup> FeedItems) option"
  Sorted :: "string list"

definition en :: string where
  "en = ''en_US''"

definition defaultFeedEndpoint :: string where
  "defaultFeedEndpoint = ''https://feeds.getiantem.org/%s/feed.json''"

definition supportedLocales :: "string \<rightharpoonup> bool" where
  "supportedLocales =
     [''en_US'' \<mapsto> True, ''fa_IR'' \<mapsto> True, ''fa'' \<mapsto> True, ''ms_MY'' \<mapsto> True,
      ''zh_CN'' \<mapsto> True]"

text \<open>\<^verbatim>\<open>m[k]\<close> on a \<^verbatim>\<open>map[string]bool\<close>: \<^verbatim>\<open>false\<close> for a missing key.\<close>

definition indexBool :: "(string \<rightharpoonup> bool) \<Rightarrow> string \<Rightarrow> bool" where
  "indexBool m k = (case m k of None \<Rightarrow> False | Some b \<Rightarrow> b)"

section \<open>The library functions the package calls\<close>

text \<open>
  The runes of \<^verbatim>\<open>unicode.IsSpace\<close>, each as its UTF-8 bytes: U+0009 to U+000D,
  U+0020, U+0085, U+00A0, U+1680, U+2000 to U+200A, U+2028, U+2029, U+202F, U+205F, U+3000.
\<close>

definition spaceRunes :: "string list" where
  "spaceRunes =
     [[CHR 0x09], [CHR 0x0A], [CHR 0x0B], [CHR 0x0C], [CHR 0x0D], [CHR 0x20],
      [CHR 0xC2, CHR 0x85], [CHR 0xC2, CHR 0xA0], [CHR 0xE1, CHR 0x9A, CHR 0x80],
      [CHR 0xE2, CHR 0x80, CHR 0x80], [CHR 0xE2, CHR 0x80, CHR 0x81],
      [CHR 0xE2, CHR 0x80, CHR 0x82], [CHR 0xE2, CHR 0x80, CHR 0x83],
      [CHR 0xE2, CHR 0x80, CHR 0x84], [CHR 0xE2, CHR 0x80, CHR 0x85],
      [CHR 0xE2, CHR 0x80, CHR 0x86], [CHR 0xE2, CHR 0x80, CHR 0x87],
      [CHR 0xE2, CHR 0x80, CHR 0x88], [CHR 0xE2, CHR 0x80, CHR 0x89],
      [CHR 0xE2, CHR 0x80, CHR 0x8A], [CHR 0xE2, CHR 0x80, CHR 0xA8],
      [CHR 0xE2, CHR 0x80, CHR 0xA9], [CHR 0xE2, CHR 0x80, CHR 0xAF],
      [CHR 0xE2, CHR 0x81, CHR 0x9F], [CHR 0xE3, CHR 0x80, CHR 0x80]]"

text \<open>
  \<^verbatim>\<open>strings.TrimSpace\<close>: the white-space runes are cut from the front, then from the
  back. UTF-8 is self-synchronising, so a rune stands at the front (at the back) of the
  bytes exactly when its encoding is a prefix (a suffix) of them.
\<close>

function trimLeft :: "string \<Rightarrow> string" where
  "trimLeft s =
     (case find (\<lambda>r. prefix r s) spaceRunes of
        None \<Rightarrow> s
      | Some r \<Rightarrow> trimLeft (drop (length r) s))"
  by pat_completeness auto
termination
proof (relation "measure length")
  fix s r
  assume "find (\<lambda>r. prefix r s) spaceRunes = Some r"
  then have "r \<in> set spaceRunes" and p: "prefix r s"
    by (auto simp: find_Some_iff)
  then have "r \<noteq> []"
    by (auto simp: spaceRunes_def)
  with p have "s \<noteq> []"
    by auto
  with \<open>r \<noteq> []\<close> show "(drop (length r) s, s) \<in> measure length"
    by simp
qed simp

function trimRight :: "string \<Rightarrow> string" where
  "trimRight s =
     (case find (\<lambda>r. suffix r s) spaceRunes of
        None \<Rightarrow> s
      | Some r \<Rightarrow> trimRight (take (length s - length r) s))"
  by pat_completeness auto
termination
proof (relation "measure length")
  fix s r
  assume "find (\<lambda>r. suffix r s) spaceRunes = Some r"
  then have "r \<in> set spaceRunes" and p: "suffix r s"
    by (auto simp: find_Some_iff)
  then have "r \<noteq> []"
    by (auto simp: spaceRunes_def)
  with p have "s \<noteq> []"
    by auto
  with \<open>r \<noteq> []\<close> show "(take (length s - length r) s, s) \<in> measure length"
    by simp
qed simp

declare trimLeft.simps [simp del]
declare trimRight.simps [simp del]

definition TrimSpace :: "string \<Rightarrow> string" where
  "TrimSpace s = trimRight (trimLeft s)"

text \<open>
  The runes that \<^verbatim>\<open>unicode.SimpleFold\<close> puts in the orbit of an ASCII byte, each as
  its UTF-8 bytes: a letter and its other case, with U+212A (the Kelvin sign) for K
  and U+017F (the long s) for S; any other byte alone.
\<close>

definition foldOrbit :: "char \<Rightarrow> string list" where
  "foldOrbit c =
     (case find (\<lambda>(l, u). c = l \<or> c = u)
             (zip ''abcdefghijklmnopqrstuvwxyz'' ''ABCDEFGHIJKLMNOPQRSTUVWXYZ'') of
        None \<Rightarrow> [[c]]
      | Some (l, u) \<Rightarrow>
          [[l], [u]] @
          (if l = CHR ''k'' then [[CHR 0xE2, CHR 0x84, CHR 0xAA]]
           else if l = CHR ''s'' then [[CHR 0xC5, CHR 0xBF]]
           else []))"

text \<open>
  \<^verbatim>\<open>strings.EqualFold s t\<close> for an ASCII \<open>s\<close>, which is how the package calls it
  (\<open>s\<close> is one of the literals \<^verbatim>\<open>"en_US"\<close>, \<^verbatim>\<open>"ir"\<close>, \<^verbatim>\<open>"my"\<close>): rune by rune,
  the rune of \<open>t\<close> is in the orbit of the byte of \<open>s\<close>.
\<close>

fun EqualFold :: "string \<Rightarrow> string \<Rightarrow> bool" where
  "EqualFold [] t = (t = [])"
| "EqualFold (c # s) t =
     (case find (\<lambda>r. prefix r t) (foldOrbit c) of
        None \<Rightarrow> False
      | Some r \<Rightarrow> EqualFold s (drop (length r) t))"

text \<open>
  \<^verbatim>\<open>fmt.Sprintf(format, a)\<close> with one string operand, for a format whose only verb is
  one \<^verbatim>\<open>%s\<close>, as \<open>defaultFeedEndpoint\<close> is: the operand takes the place of the verb.
\<close>

fun Sprintf :: "string \<Rightarrow> string \<Rightarrow> string" where
  "Sprintf [] a = []"
| "Sprintf (c # cs) a =
     (if c = CHR ''%'' \<and> take 1 cs = ''s'' then a @ drop 1 cs else c # Sprintf cs a)"

section \<open>The state and the collaborators\<close>

text \<open>
  The state is the package variable \<^verbatim>\<open>feed\<close> together with the calls made so far on
  each collaborator: \<^verbatim>\<open>AddSource\<close> on the provider, \<^verbatim>\<open>AddFeed\<close> on the retriever,
  \<^verbatim>\<open>geolookup.GetCountry\<close> (by its timeout, in nanoseconds) and \<^verbatim>\<open>http.NewRequest\<close>
  (by its URL). Logging changes none of them and is left out. The entries of a bucket
  of \<open>Items\<close> are the pointers of \<open>Entries\<close>; \<^verbatim>\<open>processFeed\<close> writes every
  \<open>Description\<close> before it fills a bucket and nothing writes an entry afterwards, so a
  bucket holds the entries by value.
\<close>

record state =
  feed :: "Feed option"
  provider :: "string list"
  retriever :: "(string \<times> string \<times> string \<times> string) list"
  lookups :: "int list"
  requests :: "string list"

datatype client = Client string

record request =
  Method :: string
  URL :: string
  Header :: "(string \<times> string) list"

text \<open>
  What the outside world answers: the country of the geolocation service, and the result
  of each library call of \<^verbatim>\<open>doGetFeed\<close>, an error (\<^term>\<open>Inl\<close>) or a value.
  \<open>NewReader\<close> is \<^verbatim>\<open>gzip.NewReader\<close> on the response body, \<open>ReadAll\<close> is
  \<^verbatim>\<open>ioutil.ReadAll\<close> on that reader, \<open>Unmarshal\<close> is \<^verbatim>\<open>json.Unmarshal\<close> into the
  given document.
\<close>

record env =
  GetCountry :: "int \<Rightarrow> string"
  NewRequest :: "string \<Rightarrow> string \<Rightarrow> error + request"
  HTTPClient :: "string \<Rightarrow> error + client"
  Do :: "client \<Rightarrow> request \<Rightarrow> error + string"
  NewReader :: "string \<Rightarrow> error + string"
  ReadAll :: "string \<Rightarrow> error + string"
  Unmarshal :: "string \<Rightarrow> Feed \<Rightarrow> error + Feed"

section \<open>The accessors\<close>

text \<open>The loop of \<^verbatim>\<open>FeedByName\<close>; \<^verbatim>\<open>i.Title\<close> on a \<^verbatim>\<open>nil\<close> entry panics.\<close>

fun addFeeds ::
  "FeedItems \<Rightarrow> (string \<times> string \<times> string \<times> string) list \<Rightarrow>
   fault + (string \<times> string \<times> string \<times> string) list" where
  "addFeeds [] r = Inr r"
| "addFeeds (None # items) r = Inl NilDereference"
| "addFeeds (Some i # items) r =
     addFeeds items
       (r @ [(FeedItem.Title i, Description i, Image i, Link i)])"

definition FeedByName :: "string \<Rightarrow> state \<Rightarrow> fault + state" where
  "FeedByName name st =
     (case feed st of
        None \<Rightarrow> Inr st
      | Some f \<Rightarrow>
          (case Items f of
             None \<Rightarrow> Inr st
           | Some m \<Rightarrow>
               (case m name of
                  None \<Rightarrow> Inr st
                | Some items \<Rightarrow>
                    (case addFeeds items (retriever st) of
                       Inl e \<Rightarrow> Inl e
                     | Inr r \<Rightarrow> Inr (st\<lparr>retriever := r\<rparr>)))))"

definition NumFeedEntries :: "state \<Rightarrow> fault + int" where
  "NumFeedEntries st =
     (case feed st of
        None \<Rightarrow> Inl NilDereference
      | Some f \<Rightarrow> Inr (int (length (Feed.Entries f))))"

definition CurrentFeed :: "state \<Rightarrow> Feed option" where
  "CurrentFeed st = feed st"

definition handleError :: "error \<Rightarrow> state \<Rightarrow> state" where
  "handleError err st = st\<lparr>feed := None\<rparr>"

section \<open>processFeed\<close>

text \<open>\<^verbatim>\<open>m[k]\<close> on a \<^verbatim>\<open>map[string]interface{}\<close>: \<^verbatim>\<open>nil\<close> for a missing key.\<close>

definition indexMeta :: "(string \<rightharpoonup> json) \<Rightarrow> string \<Rightarrow> json" where
  "indexMeta m k = (case m k of None \<Rightarrow> JNull | Some v \<Rightarrow> v)"

text \<open>The type assertion \<^verbatim>\<open>aDesc.(string)\<close>, which panics on any other dynamic type.\<close>

definition assertString :: "json \<Rightarrow> fault + string" where
  "assertString v = (case v of JString s \<Rightarrow> Inr s | _ \<Rightarrow> Inl TypeAssertion)"

text \<open>The body of the first loop (lines 194 to 202), on one element of \<open>Entries\<close>.\<close>

definition describe :: "FeedItem option \<Rightarrow> fault + FeedItem option" where
  "describe p =
     (case p of
        None \<Rightarrow> Inl NilDereference
      | Some entry \<Rightarrow>
          (let aDesc = indexMeta (Meta entry) ''description'' in
           case (if aDesc \<noteq> JNull then
                   (case assertString aDesc of
                      Inl e \<Rightarrow> Inl e
                    | Inr s \<Rightarrow> Inr (TrimSpace s))
                 else Inr '''') of
             Inl e \<Rightarrow> Inl e
           | Inr desc \<Rightarrow>
               Inr (Some (entry\<lparr>Description :=
                            (if desc = '''' then Content entry else desc)\<rparr>))))"

fun addDescriptions :: "FeedItems \<Rightarrow> fault + FeedItems" where
  "addDescriptions [] = Inr []"
| "addDescriptions (p # ps) =
     (case describe p of
        Inl e \<Rightarrow> Inl e
      | Inr p' \<Rightarrow>
          (case addDescriptions ps of
             Inl e \<Rightarrow> Inl e
           | Inr ps' \<Rightarrow> Inr (p' # ps')))"

text \<open>
  The second loop (lines 207 to 212). \<^verbatim>\<open>feed.Feeds[entry.Source]\<close> is \<^verbatim>\<open>nil\<close> for
  a missing key, as it is for a key that holds \<^verbatim>\<open>nil\<close>, and reading
  \<^verbatim>\<open>ExcludeFromAll\<close> through it panics.
\<close>

fun allItems ::
  "(string \<rightharpoonup> Source option) \<Rightarrow> FeedItems \<Rightarrow> FeedItems \<Rightarrow> fault + FeedItems" where
  "allItems feeds [] all = Inr all"
| "allItems feeds (None # ps) all = Inl NilDereference"
| "allItems feeds (Some entry # ps) all =
     (case feeds (Source entry) of
        None \<Rightarrow> Inl NilDereference
      | Some None \<Rightarrow> Inl NilDereference
      | Some (Some s) \<Rightarrow>
          (if \<not> ExcludeFromAll s then allItems feeds ps (all @ [Some entry])
           else allItems feeds ps all))"

text \<open>The third loop (lines 216 to 227): the \<^verbatim>\<open>AddSource\<close> calls.\<close>

fun addSources ::
  "(string \<rightharpoonup> Source option) \<Rightarrow> string list \<Rightarrow> string list \<Rightarrow> fault + string list" where
  "addSources feeds [] prov = Inr prov"
| "addSources feeds (source # rest) prov =
     (case feeds source of
        None \<Rightarrow> addSources feeds rest prov
      | Some None \<Rightarrow> Inl NilDereference
      | Some (Some entry) \<Rightarrow>
          (if Source.Title entry \<noteq> '''' then
             addSources feeds rest (prov @ [Source.Title entry])
           else addSources feeds rest prov))"

text \<open>
  The inner loop of the fourth (lines 230 to 235), for a source of title \<open>t\<close>:
  \<^verbatim>\<open>feed.Entries[i]\<close> panics unless \<open>0 \<le> i < len(feed.Entries)\<close>; \<^verbatim>\<open>append\<close> to
  the bucket of a missing key appends to \<^verbatim>\<open>nil\<close>.
\<close>

fun appendEntries ::
  "FeedItems \<Rightarrow> string \<Rightarrow> int list \<Rightarrow> (string \<rightharpoonup> FeedItems) \<Rightarrow>
   fault + (string \<rightharpoonup> FeedItems)" where
  "appendEntries es t [] m = Inr m"
| "appendEntries es t (i # is) m =
     (if 0 \<le> i \<and> i < int (length es) then
        appendEntries es t is
          (m(t \<mapsto> (case m t of None \<Rightarrow> [] | Some b \<Rightarrow> b) @ [es ! nat i]))
      else Inl IndexOutOfRange)"

text \<open>
  The fourth loop (lines 229 to 236). Go leaves the order in which \<^verbatim>\<open>range\<close> visits
  a map unspecified, so the order is an input: \<open>order\<close> lists the keys of
  \<^verbatim>\<open>feed.Feeds\<close> as the run visits them. \<^verbatim>\<open>s.Entries\<close> on a \<^verbatim>\<open>nil\<close> source
  panics.
\<close>

fun bySource ::
  "(string \<rightharpoonup> Source option) \<Rightarrow> FeedItems \<Rightarrow> string list \<Rightarrow> (string \<rightharpoonup> FeedItems) \<Rightarrow>
   fault + (string \<rightharpoonup> FeedItems)" where
  "bySource feeds es [] m = Inr m"
| "bySource feeds es (k # ks) m =
     (case feeds k of
        None \<Rightarrow> bySource feeds es ks m
      | Some None \<Rightarrow> Inl NilDereference
      | Some (Some s) \<Rightarrow>
          (case appendEntries es (Source.Title s) (Source.Entries s) m of
             Inl e \<Rightarrow> Inl e
           | Inr m' \<Rightarrow> bySource feeds es ks m'))"

definition processFeed :: "string list \<Rightarrow> string \<Rightarrow> state \<Rightarrow> fault + state" where
  "processFeed order allStr st =
     (case feed st of
        None \<Rightarrow> Inl NilDereference
      | Some f \<Rightarrow>
          (case addDescriptions (Feed.Entries f) of
             Inl e \<Rightarrow> Inl e
           | Inr es \<Rightarrow>
               (case allItems (Feeds f) es [] of
                  Inl e \<Rightarrow> Inl e
                | Inr all \<Rightarrow>
                    (case addSources (Feeds f) (Sorted f) (provider st) of
                       Inl e \<Rightarrow> Inl e
                     | Inr prov \<Rightarrow>
                         (case bySource (Feeds f) es order [allStr \<mapsto> all] of
                            Inl e \<Rightarrow> Inl e
                          | Inr m \<Rightarrow>
                              Inr (st\<lparr>feed := Some (f\<lparr>Feed.Entries := es, Items := Some m\<rparr>),
                                      provider := prov\<rparr>))))))"

section \<open>The locale and the endpoint\<close>

definition Second :: int where
  "Second = 1000000000"

definition determineLocale :: "env \<Rightarrow> string \<Rightarrow> state \<Rightarrow> string \<times> state" where
  "determineLocale env defaultLocale st =
     (let defaultLocale = (if defaultLocale = '''' then en else defaultLocale) in
      if \<not> EqualFold en defaultLocale then (defaultLocale, st)
      else
        (let country = GetCountry env (10 * Second);
             st = st\<lparr>lookups := lookups st @ [10 * Second]\<rparr>
         in if country = '''' then (defaultLocale, st)
            else if EqualFold ''ir'' country then (''fa_IR'', st)
            else if EqualFold ''my'' country then (''ms_MY'', st)
            else (defaultLocale, st)))"

definition getFeedURL :: "env \<Rightarrow> string \<Rightarrow> string \<Rightarrow> state \<Rightarrow> string \<times> state" where
  "getFeedURL env feedEndpoint defaultLocale st =
     (case determineLocale env defaultLocale st of
        (locale, st) \<Rightarrow> (Sprintf feedEndpoint locale, st))"

definition GetFeedURL :: "env \<Rightarrow> string \<Rightarrow> state \<Rightarrow> string \<times> state" where
  "GetFeedURL env defaultLocale st = getFeedURL env defaultFeedEndpoint defaultLocale st"

section \<open>doGetFeed\<close>

definition emptyFeed :: Feed where
  "emptyFeed = \<lparr>Feeds = Map.empty, Entries = [], Items = None, Sorted = []\<rparr>"

text \<open>
  \<open>emptyFeed\<close> is \<^verbatim>\<open>&Feed{}\<close>, which line 128 stores in the package variable;
  nothing changes it before \<^verbatim>\<open>json.Unmarshal\<close> fills it at line 175. The direct
  client \<^verbatim>\<open>&http.Client{}\<close> is \<^term>\<open>Client []\<close>. The URL is recorded in
  \<open>requests\<close> as \<^verbatim>\<open>http.NewRequest\<close> is called. Closing the response body changes
  nothing of the state. \<open>order\<close> is passed on to \<open>processFeed\<close>. A result
  \<^term>\<open>Inl e\<close> is a panic of \<open>processFeed\<close>; every error of a library call ends in
  \<open>handleError\<close> and a normal return.
\<close>

definition doGetFeed ::
  "env \<Rightarrow> string list \<Rightarrow> string \<Rightarrow> string \<Rightarrow> string \<Rightarrow> string \<Rightarrow> state \<Rightarrow> fault + state" where
  "doGetFeed env order feedEndpoint locale allStr proxyAddr st =
     (let st = st\<lparr>feed := Some emptyFeed\<rparr>;
          locale = (if \<not> indexBool supportedLocales locale then en else locale)
      in case getFeedURL env feedEndpoint locale st of
        (feedURL, st) \<Rightarrow>
          (let st = st\<lparr>requests := requests st @ [feedURL]\<rparr> in
           case NewRequest env ''GET'' feedURL of
             Inl err \<Rightarrow> Inr (handleError (''Error fetching feed: '' @ err) st)
           | Inr req \<Rightarrow>
               (let req = req\<lparr>Header := Header req @ [(''Accept-Encoding'', ''gzip'')]\<rparr> in
                case (if proxyAddr = '''' then Inr (Client '''') else HTTPClient env proxyAddr) of
                  Inl err \<Rightarrow> Inr (handleError (''Error creating client: '' @ err) st)
                | Inr httpClient \<Rightarrow>
                    (case Do env httpClient req of
                       Inl err \<Rightarrow> Inr (handleError (''Error fetching feed: '' @ err) st)
                     | Inr res \<Rightarrow>
                         (case NewReader env res of
                            Inl err \<Rightarrow>
                              Inr (handleError (''Unable to open gzip reader: '' @ err) st)
                          | Inr gzReader \<Rightarrow>
                              (case ReadAll env gzReader of
                                 Inl err \<Rightarrow>
                                   Inr (handleError (''Error reading feed: '' @ err) st)
                               | Inr contents \<Rightarrow>
                                   (case Unmarshal env contents emptyFeed of
                                      Inl err \<Rightarrow>
                                        Inr (handleError (''Error parsing feed: '' @ err) st)
                                    | Inr f \<Rightarrow>
                                        processFeed order allStr
                                          (st\<lparr>feed := Some f\<rparr>))))))))"

definition GetFeed ::
  "env \<Rightarrow> string list \<Rightarrow> string \<Rightarrow> string \<Rightarrow> string \<Rightarrow> state \<Rightarrow> fault + state" where
  "GetFeed env order locale allStr proxyAddr st =
     doGetFeed env order defaultFeedEndpoint locale allStr proxyAddr st"

section \<open>Predicates of the properties\<close>

text \<open>
  \<open>inAll\<close>: the entry is there and its source key resolves to a source that is not
  excluded. \<open>bucket\<close>: the entries under a label, none for a missing label.
  \<open>noNil\<close>: no bucket holds a \<^verbatim>\<open>nil\<close> entry. \<open>announced\<close>: the
  \<^verbatim>\<open>AddSource\<close> calls the third loop makes for one key. \<open>stringOrAbsent\<close>: what
  \<^verbatim>\<open>entry.Meta["description"]\<close> may be for the type assertion not to panic.
\<close>

definition inAll :: "(string \<rightharpoonup> Source option) \<Rightarrow> FeedItem option \<Rightarrow> bool" where
  "inAll feeds p =
     (case p of
        None \<Rightarrow> False
      | Some e \<Rightarrow>
          (case feeds (Source e) of
             Some (Some s) \<Rightarrow> \<not> ExcludeFromAll s
           | _ \<Rightarrow> False))"

definition bucket :: "(string \<rightharpoonup> FeedItems) \<Rightarrow> string \<Rightarrow> FeedItems" where
  "bucket m t = (case m t of None \<Rightarrow> [] | Some b \<Rightarrow> b)"

definition noNil :: "(string \<rightharpoonup> FeedItems) \<Rightarrow> bool" where
  "noNil m = (\<forall>k b. m k = Some b \<longrightarrow> None \<notin> set b)"


definition stringOrAbsent :: "json option \<Rightarrow> bool" where
  "stringOrAbsent v =
     (case v of None \<Rightarrow> True | Some JNull \<Rightarrow> True | Some (JString s) \<Rightarrow> True | _ \<Rightarrow> False)"

text \<open>
  \<open>wellFormed\<close>: what \<open>processFeed\<close> needs of a document to run to its end. Every
  entry is there, its \<^verbatim>\<open>meta["description"]\<close> passes the type assertion and its source
  key resolves; no key of \<open>Sorted\<close> holds a \<^verbatim>\<open>nil\<close> source; and every source the fourth
  loop visits is there with its entry indices in range. \<open>touches\<close>: the fourth loop
  appends to the bucket of label \<open>t\<close> when it visits the key.
\<close>

definition inRange :: "FeedItems \<Rightarrow> Source \<Rightarrow> bool" where
  "inRange es s = list_all (\<lambda>i. 0 \<le> i \<and> i < int (length es)) (Source.Entries s)"

definition resolves :: "(string \<rightharpoonup> Source option) \<Rightarrow> string \<Rightarrow> bool" where
  "resolves feeds k = (case feeds k of Some (Some s) \<Rightarrow> True | _ \<Rightarrow> False)"

definition entryOk :: "Feed \<Rightarrow> FeedItem option \<Rightarrow> bool" where
  "entryOk f p =
     (case p of
        None \<Rightarrow> False
      | Some e \<Rightarrow> stringOrAbsent (Meta e ''description'') \<and> resolves (Feeds f) (Source e))"

definition sourceOk :: "(string \<rightharpoonup> Source option) \<Rightarrow> FeedItems \<Rightarrow> string \<Rightarrow> bool" where
  "sourceOk feeds es k =
     (case feeds k of None \<Rightarrow> True | Some None \<Rightarrow> False | Some (Some s) \<Rightarrow> inRange es s)"

definition wellFormed :: "string list \<Rightarrow> Feed \<Rightarrow> bool" where
  "wellFormed order f =
     (list_all (entryOk f) (Feed.Entries f) \<and>
      list_all (\<lambda>k. Feeds f k \<noteq> Some None) (Sorted f) \<and>
      list_all (sourceOk (Feeds f) (Feed.Entries f)) order)"

definition touches :: "(string \<rightharpoonup> Source option) \<Rightarrow> string \<Rightarrow> string \<Rightarrow> bool" where
  "touches feeds t k =
     (case feeds k of
        Some (Some s) \<Rightarrow> Source.Entries s \<noteq> [] \<and> Source.Title s = t
      | _ \<Rightarrow> False)"

section \<open>Example documents\<close>

definition exampleItem :: "string \<Rightarrow> string \<Rightarrow> (string \<rightharpoonup> json) \<Rightarrow> string \<Rightarrow> FeedItem" where
  "exampleItem t k m c =
     \<lparr>FeedItem.Title = t, Link = ''http://example.org/'' @ t, Image = t @ ''.png'', Meta = m,
      Content = c, Source = k, Description = ''''\<rparr>"

definition exampleSource :: "string \<Rightarrow> bool \<Rightarrow> int list \<Rightarrow> Source" where
  "exampleSource t x is =
     \<lparr>FeedUrl = ''http://example.org/rss'', Source.Title = t, Url = ''http://example.org'',
      ExcludeFromAll = x, Source.Entries = is\<rparr>"

definition noFeed :: state where
  "noFeed = \<lparr>feed = None, provider = [], retriever = [], lookups = [], requests = []\<rparr>"

definition unknownSourceFeed :: Feed where
  "unknownSourceFeed =
     \<lparr>Feeds = [''bbc'' \<mapsto> Some (exampleSource ''BBC'' False [0])],
      Entries = [Some (exampleItem ''a'' ''bbc'' Map.empty ''ca''),
                 Some (exampleItem ''b'' ''cnn'' Map.empty ''cb'')],
      Items = None, Sorted = [''bbc'']\<rparr>"

definition badIndexFeed :: Feed where
  "badIndexFeed =
     \<lparr>Feeds = [''bbc'' \<mapsto> Some (exampleSource ''BBC'' False [99])],
      Entries = [Some (exampleItem ''a'' ''bbc'' Map.empty ''ca''),
                 Some (exampleItem ''b'' ''bbc'' Map.empty ''cb''),
                 Some (exampleItem ''c'' ''bbc'' Map.empty ''cc'')],
      Items = None, Sorted = [''bbc'']\<rparr>"

definition numberDescriptionFeed :: Feed where
  "numberDescriptionFeed =
     \<lparr>Feeds = [''bbc'' \<mapsto> Some (exampleSource ''BBC'' False [0])],
      Entries = [Some (exampleItem ''a'' ''bbc'' [''description'' \<mapsto> JNumber 0] ''ca'')],
      Items = None, Sorted = [''bbc'']\<rparr>"

definition exampleFeed :: Feed where
  "exampleFeed =
     \<lparr>Feeds = [''bbc'' \<mapsto> Some (exampleSource ''BBC'' False [1, 0]),
               ''nyt'' \<mapsto> Some (exampleSource ''NYT'' True [2]),
               ''old'' \<mapsto> Some (exampleSource '''' False [])],
      Entries = [Some (exampleItem ''a'' ''bbc'' [''description'' \<mapsto> JString '' hi ''] ''ca''),
                 Some (exampleItem ''b'' ''bbc'' Map.empty ''cb''),
                 Some (exampleItem ''c'' ''nyt'' [''description'' \<mapsto> JString ''  ''] ''cc'')],
      Items = None, Sorted = [''nyt'', ''zzz'', ''old'', ''bbc'']\<rparr>"

definition normalizedItems :: "FeedItem list" where
  "normalizedItems =
     [(exampleItem ''a'' ''bbc'' [''description'' \<mapsto> JString '' hi ''] ''ca'')\<lparr>Description := ''hi''\<rparr>,
      (exampleItem ''b'' ''bbc'' Map.empty ''cb'')\<lparr>Description := ''cb''\<rparr>,
      (exampleItem ''c'' ''nyt'' [''description'' \<mapsto> JString ''  ''] ''cc'')\<lparr>Description := ''cc''\<rparr>]"

definition normalizedFeed :: Feed where
  "normalizedFeed =
     exampleFeed
       \<lparr>Entries := map Some normalizedItems,
        Items := Some [''all'' \<mapsto> [Some (normalizedItems ! 0), Some (normalizedItems ! 1)],
                       ''BBC'' \<mapsto> [Some (normalizedItems ! 1), Some (normalizedItems ! 0)],
                       ''NYT'' \<mapsto> [Some (normalizedItems ! 2)]]\<rparr>"

definition populated :: state where
  "populated = noFeed\<lparr>feed := Some normalizedFeed, provider := [''NYT'', ''BBC'']\<rparr>"

definition exampleEnv :: "string \<Rightarrow> (string \<Rightarrow> Feed \<Rightarrow> error + Feed) \<Rightarrow> env" where
  "exampleEnv country unmarshal =
     \<lparr>GetCountry = (\<lambda>t. country),
      NewRequest = (\<lambda>m u. Inr \<lparr>Method = m, URL = u, Header = []\<rparr>),
      HTTPClient = (\<lambda>a. Inr (Client a)),
      Do = (\<lambda>c r. Inr ''gzip''),
      NewReader = (\<lambda>b. Inr b),
      ReadAll = (\<lambda>r. Inr ''json''),
      Unmarshal = unmarshal\<rparr>"

definition badJSON :: "string \<Rightarrow> Feed \<Rightarrow> error + Feed" where
  "badJSON contents f = Inl ''unexpected end of JSON input''"

definition emptyJSON :: "string \<Rightarrow> Feed \<Rightarrow> error + Feed" where
  "emptyJSON contents f = Inr f"

lemmas example_defs = exampleItem_def exampleSource_def noFeed_def

section \<open>Properties of the loops\<close>

lemma processFeed_Inr:
  assumes "processFeed order allStr st = Inr st'"
  obtains f es all prov m where
    "feed st = Some f"
    "addDescriptions (Feed.Entries f) = Inr es"
    "allItems (Feeds f) es [] = Inr all"
    "addSources (Feeds f) (Sorted f) (provider st) = Inr prov"
    "bySource (Feeds f) es order [allStr \<mapsto> all] = Inr m"
    "st' = st\<lparr>feed := Some (f\<lparr>Feed.Entries := es, Items := Some m\<rparr>), provider := prov\<rparr>"
  using assms
  by (auto simp: processFeed_def split: option.splits sum.splits)



lemma describe_fault:
  "(describe (Some e) = Inl x) =
   (x = TypeAssertion \<and> (\<exists>v. Meta e ''description'' = Some v \<and> v \<noteq> JNull \<and> (\<forall>s. v \<noteq> JString s)))"
  by (auto simp: describe_def indexMeta_def assertString_def Let_def split: option.splits json.splits)

lemma addDescriptions_map:
  "addDescriptions es = Inr es' \<Longrightarrow> map describe es = map Inr es'"
  by (induction es arbitrary: es') (auto split: sum.splits)

lemma addDescriptions_total:
  "(\<exists>es'. addDescriptions es = Inr es') = (\<forall>p\<in>set es. \<exists>p'. describe p = Inr p')"
  by (induction es) (auto split: sum.splits)

lemma addDescriptions_fault:
  "p \<in> set es \<Longrightarrow> describe p = Inl x \<Longrightarrow> \<exists>y. addDescriptions es = Inl y"
  by (induction es) (auto split: sum.splits)

lemma addSources_calls:
  "\<forall>k\<in>set ks. feeds k \<noteq> Some None \<Longrightarrow>
   addSources feeds ks prov =
     Inr (prov @ concat (map (\<lambda>k. case feeds k of
                                    Some (Some s) \<Rightarrow> if Source.Title s \<noteq> '''' then [Source.Title s] else []
                                  | _ \<Rightarrow> []) ks))"
  by (induction ks arbitrary: prov) (auto split: option.splits)

lemma addSources_Inr:
  "addSources feeds ks prov = Inr prov' \<Longrightarrow> \<forall>k\<in>set ks. feeds k \<noteq> Some None"
  by (induction ks arbitrary: prov) (auto split: option.splits if_splits)

lemma addFeeds_calls:
  "None \<notin> set items \<Longrightarrow>
   addFeeds items r =
     Inr (r @ map (\<lambda>i. (FeedItem.Title i, Description i, Image i, Link i)) (map the items))"
  by (induction items r rule: addFeeds.induct) auto

lemma allItems_Inr:
  "allItems feeds es acc = Inr all \<Longrightarrow> all = acc @ filter (inAll feeds) es"
  by (induction feeds es acc rule: allItems.induct)
     (auto simp: inAll_def split: option.splits if_splits)

lemma allItems_fault:
  "Some e \<in> set es \<Longrightarrow> feeds (Source e) = None \<Longrightarrow> allItems feeds es acc = Inl NilDereference"
  by (induction feeds es acc rule: allItems.induct) (auto split: option.splits)

lemma allItems_ok:
  "\<forall>p\<in>set es. \<exists>e s. p = Some e \<and> feeds (Source e) = Some (Some s) \<Longrightarrow>
   allItems feeds es acc = Inr (acc @ filter (inAll feeds) es)"
  by (induction feeds es acc rule: allItems.induct)
     (auto simp: inAll_def split: option.splits if_splits)

lemma describe_Source:
  "describe (Some e) = Inr p' \<Longrightarrow> \<exists>e'. p' = Some e' \<and> Source e' = Source e"
  by (auto simp: describe_def Let_def split: sum.splits if_splits)

lemma describe_Some:
  "describe p \<noteq> Inr None"
  by (auto simp: describe_def Let_def split: sum.splits if_splits option.splits)

lemma addDescriptions_not_nil:
  "addDescriptions es = Inr es' \<Longrightarrow> None \<notin> set es'"
proof (induction es arbitrary: es')
  case Nil
  then show ?case by simp
next
  case (Cons p ps)
  from Cons.prems obtain p' ps' where
    d: "describe p = Inr p'" and r: "addDescriptions ps = Inr ps'" and e: "es' = p' # ps'"
    by (auto split: sum.splits)
  from d have "p' \<noteq> None" using describe_Some [of p] by auto
  with Cons.IH [OF r] e show ?case by auto
qed

lemma addDescriptions_Source:
  "addDescriptions es = Inr es' \<Longrightarrow> Some e \<in> set es \<Longrightarrow>
   \<exists>e'. Some e' \<in> set es' \<and> Source e' = Source e"
proof (induction es arbitrary: es')
  case Nil
  then show ?case by simp
next
  case (Cons p ps)
  from Cons.prems(1) obtain p' ps' where
    d: "describe p = Inr p'" and r: "addDescriptions ps = Inr ps'" and e: "es' = p' # ps'"
    by (auto split: sum.splits)
  show ?case
  proof (cases "Some e = p")
    case True
    with d describe_Source [of e p'] e show ?thesis by auto
  next
    case False
    with Cons.prems(2) have "Some e \<in> set ps" by auto
    from Cons.IH [OF r this] e show ?thesis by auto
  qed
qed

lemma processFeed_missing_source:
  assumes "feed st = Some f" and "Some e \<in> set (Feed.Entries f)" and "Feeds f (Source e) = None"
  shows "\<exists>x. processFeed order allStr st = Inl x"
proof (cases "addDescriptions (Feed.Entries f)")
  case (Inl x)
  with assms show ?thesis by (simp add: processFeed_def)
next
  case (Inr es)
  from addDescriptions_Source [OF Inr assms(2)] assms(3)
  obtain e' where "Some e' \<in> set es" "Feeds f (Source e') = None" by auto
  then have "allItems (Feeds f) es [] = Inl NilDereference" by (rule allItems_fault)
  with assms Inr show ?thesis by (simp add: processFeed_def)
qed

lemma appendEntries_fault:
  "i \<in> set is \<Longrightarrow> \<not> (0 \<le> i \<and> i < int (length es)) \<Longrightarrow>
   appendEntries es t is m = Inl IndexOutOfRange"
  by (induction "is" arbitrary: m) auto

lemma appendEntries_ok:
  "\<forall>i\<in>set is. 0 \<le> i \<and> i < int (length es) \<Longrightarrow>
   appendEntries es t is m =
     Inr (if is = [] then m else m(t \<mapsto> bucket m t @ map (\<lambda>i. es ! nat i) is))"
proof (induction "is" arbitrary: m)
  case Nil
  show ?case by simp
next
  case (Cons i "is")
  let ?m = "m(t \<mapsto> bucket m t @ [es ! nat i])"
  from Cons.prems have r: "0 \<le> i \<and> i < int (length es)" by simp
  from Cons.prems have "\<forall>i\<in>set is. 0 \<le> i \<and> i < int (length es)" by simp
  then have ih: "appendEntries es t is ?m =
     Inr (if is = [] then ?m else ?m(t \<mapsto> bucket ?m t @ map (\<lambda>i. es ! nat i) is))"
    by (rule Cons.IH)
  have b: "bucket ?m t = bucket m t @ [es ! nat i]"
    by (simp add: bucket_def)
  have "appendEntries es t (i # is) m = appendEntries es t is ?m"
    using r by (simp add: bucket_def)
  also note ih
  also have "(if is = [] then ?m else ?m(t \<mapsto> bucket ?m t @ map (\<lambda>i. es ! nat i) is)) =
     m(t \<mapsto> bucket m t @ map (\<lambda>i. es ! nat i) (i # is))"
    unfolding b by simp
  finally show ?case by simp
qed

lemma appendEntries_Inr:
  assumes "appendEntries es t is m = Inr m'"
  shows "(\<forall>i\<in>set is. 0 \<le> i \<and> i < int (length es)) \<and>
   m' = (if is = [] then m else m(t \<mapsto> bucket m t @ map (\<lambda>i. es ! nat i) is))"
proof -
  have r: "\<forall>i\<in>set is. 0 \<le> i \<and> i < int (length es)"
  proof (rule ccontr)
    assume "\<not> ?thesis"
    then obtain i where "i \<in> set is" "\<not> (0 \<le> i \<and> i < int (length es))" by blast
    then have "appendEntries es t is m = Inl IndexOutOfRange" by (rule appendEntries_fault)
    with assms show False by simp
  qed
  from appendEntries_ok [OF r, of t m] assms r show ?thesis by simp
qed

lemma appendEntries_noNil:
  "appendEntries es t is m = Inr m' \<Longrightarrow> None \<notin> set es \<Longrightarrow> noNil m \<Longrightarrow> noNil m'"
proof (induction es t "is" m rule: appendEntries.induct)
  case (1 es t m)
  then show ?case by simp
next
  case (2 es t i "is" m)
  let ?m = "m(t \<mapsto> (case m t of None \<Rightarrow> [] | Some b \<Rightarrow> b) @ [es ! nat i])"
  from "2.prems"(1) have r: "0 \<le> i \<and> i < int (length es)"
    by (simp split: if_splits)
  with "2.prems"(1) have step: "appendEntries es t is ?m = Inr m'"
    by simp
  from r have "nat i < length es" by linarith
  then have "es ! nat i \<in> set es" by (rule nth_mem)
  with "2.prems"(2) have "es ! nat i \<noteq> None" by metis
  with "2.prems"(3) have "noNil ?m"
    by (auto simp: noNil_def split: option.splits)
  with "2.IH" [OF r step "2.prems"(2)] show ?case .
qed

lemma bySource_noNil:
  "bySource feeds es ks m = Inr m' \<Longrightarrow> None \<notin> set es \<Longrightarrow> noNil m \<Longrightarrow> noNil m'"
proof (induction ks arbitrary: m)
  case Nil
  then show ?case by simp
next
  case (Cons k ks)
  show ?case
  proof (cases "feeds k")
    case None
    with Cons show ?thesis by simp
  next
    case (Some p)
    with Cons.prems(1) obtain s m1 where
      p: "p = Some s" and
      a: "appendEntries es (Source.Title s) (Source.Entries s) m = Inr m1" and
      b: "bySource feeds es ks m1 = Inr m'"
      by (auto split: option.splits sum.splits)
    from a Cons.prems(2,3) have "noNil m1" by (rule appendEntries_noNil)
    with Cons.IH [OF b Cons.prems(2)] show ?thesis .
  qed
qed

lemma allItems_not_nil:
  "allItems feeds es acc = Inr all \<Longrightarrow> None \<notin> set acc \<Longrightarrow> None \<notin> set all"
  by (induction feeds es acc rule: allItems.induct) (auto split: option.splits if_splits)

lemma processFeed_noNil:
  assumes "processFeed order allStr st = Inr st'"
  shows "\<exists>f m. feed st' = Some f \<and> Items f = Some m \<and> noNil m"
proof -
  from assms obtain f es all prov m where
    d: "addDescriptions (Feed.Entries f) = Inr es" and
    a: "allItems (Feeds f) es [] = Inr all" and
    b: "bySource (Feeds f) es order [allStr \<mapsto> all] = Inr m" and
    s: "st' = st\<lparr>feed := Some (f\<lparr>Feed.Entries := es, Items := Some m\<rparr>), provider := prov\<rparr>"
    by (rule processFeed_Inr)
  from d have n: "None \<notin> set es" by (rule addDescriptions_not_nil)
  from a have "None \<notin> set all" by (rule allItems_not_nil) simp
  then have "noNil [allStr \<mapsto> all]" by (simp add: noNil_def)
  with b n have "noNil m" by (rule bySource_noNil)
  with s show ?thesis by simp
qed

lemma processFeed_frame:
  assumes "processFeed order allStr st = Inr st'"
  shows "requests st' = requests st \<and> lookups st' = lookups st \<and> retriever st' = retriever st"
proof -
  from assms obtain f es prov m where
    "st' = st\<lparr>feed := Some (f\<lparr>Feed.Entries := es, Items := Some m\<rparr>), provider := prov\<rparr>"
    by (rule processFeed_Inr)
  then show ?thesis by simp
qed

lemma describe_TypeAssertion:
  "(describe (Some e) = Inl TypeAssertion) = (\<not> stringOrAbsent (Meta e ''description''))"
  by (auto simp: describe_def indexMeta_def assertString_def stringOrAbsent_def Let_def
           split: option.splits json.splits)

lemma describe_ok:
  "(\<exists>p'. describe p = Inr p') = (\<exists>e. p = Some e \<and> stringOrAbsent (Meta e ''description''))"
  by (auto simp: describe_def indexMeta_def assertString_def stringOrAbsent_def Let_def
           split: option.splits json.splits)

section \<open>Properties of the locale and of doGetFeed\<close>

lemma EqualFold_ir: "EqualFold ''ir'' c = (c \<in> {''ir'', ''iR'', ''Ir'', ''IR''})"
  by (cases c; cases "tl c") (auto simp: foldOrbit_def prefix_Cons split: if_splits)

lemma EqualFold_my: "EqualFold ''my'' c = (c \<in> {''my'', ''mY'', ''My'', ''MY''})"
  by (cases c; cases "tl c") (auto simp: foldOrbit_def prefix_Cons split: if_splits)

lemma EqualFold_en_en: "EqualFold en en"
  by (simp add: en_def foldOrbit_def)

lemma EqualFold_en_nonempty: "EqualFold en d \<Longrightarrow> d \<noteq> ''''"
  by (auto simp: en_def foldOrbit_def)

text \<open>
  The default locales that equal \<^verbatim>\<open>en_US\<close> under \<^verbatim>\<open>strings.EqualFold\<close>: either
  case of each letter, and also U+017F, which folds to the letter s.
\<close>

lemma prefix_single: "prefix [a] t = (\<exists>r. t = a # r)"
  by (cases t) auto

lemma EqualFold_Cons_plain:
  "foldOrbit c = [[l], [u]] \<Longrightarrow>
   EqualFold (c # s) t = (\<exists>x r. t = x # r \<and> (x = l \<or> x = u) \<and> EqualFold s r)"
  by (cases t) (auto simp: prefix_single)

lemma EqualFold_underscore:
  "EqualFold (CHR ''_'' # s) t = (\<exists>r. t = CHR ''_'' # r \<and> EqualFold s r)"
  by (cases t) (auto simp: foldOrbit_def)

lemma EqualFold_S:
  "EqualFold ''S'' t = (t \<in> {''s'', ''S'', [CHR 0xC5, CHR 0xBF]})"
  by (cases t; cases "tl t") (auto simp: foldOrbit_def prefix_Cons split: if_splits)

lemma fold_e: "foldOrbit CHR ''e'' = [[CHR ''e''], [CHR ''E'']]"
  by (simp add: foldOrbit_def)

lemma fold_n: "foldOrbit CHR ''n'' = [[CHR ''n''], [CHR ''N'']]"
  by (simp add: foldOrbit_def)

lemma fold_U: "foldOrbit CHR ''U'' = [[CHR ''u''], [CHR ''U'']]"
  by (simp add: foldOrbit_def)

lemma EqualFold_en:
  "EqualFold en d =
   (\<exists>a r. d = a # r \<and> (a = CHR ''e'' \<or> a = CHR ''E'') \<and>
      (\<exists>b r'. r = b # r' \<and> (b = CHR ''n'' \<or> b = CHR ''N'') \<and>
         (\<exists>r''. r' = CHR ''_'' # r'' \<and>
            (\<exists>c s. r'' = c # s \<and> (c = CHR ''u'' \<or> c = CHR ''U'') \<and>
               s \<in> {''s'', ''S'', [CHR 0xC5, CHR 0xBF]}))))"
  unfolding en_def EqualFold_Cons_plain [OF fold_e] EqualFold_Cons_plain [OF fold_n]
    EqualFold_underscore EqualFold_Cons_plain [OF fold_U] EqualFold_S ..

lemma supported_en: "indexBool supportedLocales en"
  by (simp add: indexBool_def supportedLocales_def en_def)

lemma determineLocale_fst:
  "fst (determineLocale env d st) = fst (determineLocale env d st')"
  by (simp add: determineLocale_def Let_def)

lemma determineLocale_requests:
  "requests (snd (determineLocale env d st)) = requests st \<and>
   feed (snd (determineLocale env d st)) = feed st"
  by (simp add: determineLocale_def Let_def)

lemma getFeedURL_eq:
  "getFeedURL env ep d st =
     (Sprintf ep (fst (determineLocale env d st)), snd (determineLocale env d st))"
  by (simp add: getFeedURL_def split: prod.splits)

lemma doGetFeed_shape:
  fixes env :: env and st :: state and ep loc allStr proxyAddr :: string
  defines "g \<equiv> getFeedURL env ep (if \<not> indexBool supportedLocales loc then en else loc)
                 (st\<lparr>feed := Some emptyFeed\<rparr>)"
  defines "st1 \<equiv> (snd g)\<lparr>requests := requests (snd g) @ [fst g]\<rparr>"
  shows "doGetFeed env order ep loc allStr proxyAddr st = Inr (st1\<lparr>feed := None\<rparr>) \<or>
         (\<exists>f. doGetFeed env order ep loc allStr proxyAddr st =
                processFeed order allStr (st1\<lparr>feed := Some f\<rparr>))"
proof -
  obtain u' st0 where g: "getFeedURL env ep (if \<not> indexBool supportedLocales loc then en else loc)
                        (st\<lparr>feed := Some emptyFeed\<rparr>) = (u', st0)"
    by (cases "getFeedURL env ep (if \<not> indexBool supportedLocales loc then en else loc)
                        (st\<lparr>feed := Some emptyFeed\<rparr>)")
  let ?h = "\<lambda>req. req\<lparr>Header := Header req @ [(''Accept-Encoding'', ''gzip'')]\<rparr>"
  let ?cl = "if proxyAddr = [] then Inr (Client []) else HTTPClient env proxyAddr"
  note defs = doGetFeed_def Let_def handleError_def g g_def st1_def
  show ?thesis
  proof (cases "NewRequest env ''GET'' u'")
    case (Inl e)
    then show ?thesis by (simp add: defs)
  next
    case req: (Inr req)
    show ?thesis
    proof (cases ?cl)
      case (Inl e)
      with req show ?thesis by (simp add: defs)
    next
      case c: (Inr c)
      show ?thesis
      proof (cases "Do env c (?h req)")
        case (Inl e)
        with req c show ?thesis by (simp add: defs)
      next
        case res: (Inr res)
        show ?thesis
        proof (cases "NewReader env res")
          case (Inl e)
          with req c res show ?thesis by (simp add: defs)
        next
          case gz: (Inr gz)
          show ?thesis
          proof (cases "ReadAll env gz")
            case (Inl e)
            with req c res gz show ?thesis by (simp add: defs)
          next
            case contents: (Inr contents)
            show ?thesis
            proof (cases "Unmarshal env contents emptyFeed")
              case (Inl e)
              with req c res gz contents show ?thesis by (simp add: defs)
            next
              case (Inr f)
              with req c res gz contents show ?thesis by (auto simp add: defs)
            qed
          qed
        qed
      qed
    qed
  qed
qed

lemma doGetFeed_requests:
  assumes "doGetFeed env order ep loc allStr proxyAddr st = Inr st'"
  shows "requests st' = requests st @
           [Sprintf ep (fst (determineLocale env (if \<not> indexBool supportedLocales loc then en else loc) st))]"
proof -
  let ?d = "if \<not> indexBool supportedLocales loc then en else loc"
  let ?g = "getFeedURL env ep ?d (st\<lparr>feed := Some emptyFeed\<rparr>)"
  let ?st1 = "(snd ?g)\<lparr>requests := requests (snd ?g) @ [fst ?g]\<rparr>"
  have r: "requests ?st1 = requests st @ [Sprintf ep (fst (determineLocale env ?d st))]"
    using determineLocale_requests [of env ?d "st\<lparr>feed := Some emptyFeed\<rparr>"]
      determineLocale_fst [of env ?d "st\<lparr>feed := Some emptyFeed\<rparr>" st]
    by (simp add: getFeedURL_eq)
  from doGetFeed_shape [of env order ep loc allStr proxyAddr st]
  show ?thesis
  proof
    assume "doGetFeed env order ep loc allStr proxyAddr st = Inr (?st1\<lparr>feed := None\<rparr>)"
    with assms have "st' = ?st1\<lparr>feed := None\<rparr>" by simp
    then have "requests st' = requests ?st1" by simp
    with r show ?thesis by simp
  next
    assume "\<exists>f. doGetFeed env order ep loc allStr proxyAddr st =
                processFeed order allStr (?st1\<lparr>feed := Some f\<rparr>)"
    then obtain f where "processFeed order allStr (?st1\<lparr>feed := Some f\<rparr>) = Inr st'"
      using assms by auto
    then have "requests st' = requests (?st1\<lparr>feed := Some f\<rparr>)"
      using processFeed_frame by blast
    then have "requests st' = requests ?st1" by simp
    with r show ?thesis by simp
  qed
qed

section \<open>The example run\<close>

lemma TrimSpace_examples: "TrimSpace '' hi '' = ''hi''" "TrimSpace ''  '' = ''''"
  by code_simp+

lemma example_run:
  "processFeed [''bbc'', ''nyt'', ''old''] ''all'' (noFeed\<lparr>feed := Some exampleFeed\<rparr>) =
     Inr (noFeed\<lparr>feed := Some normalizedFeed, provider := [''NYT'', ''BBC'']\<rparr>)"
  by (simp add: processFeed_def exampleFeed_def normalizedFeed_def normalizedItems_def example_defs
      describe_def indexMeta_def assertString_def TrimSpace_examples)

section \<open>What a normalization that completes has built\<close>

lemma resolves_iff: "resolves feeds k = (\<exists>s. feeds k = Some (Some s))"
  by (simp add: resolves_def split: option.splits)

lemma entryOk_iff:
  "entryOk f p =
   (\<exists>e. p = Some e \<and> stringOrAbsent (Meta e ''description'') \<and>
        (\<exists>s. Feeds f (Source e) = Some (Some s)))"
  by (cases p) (simp_all add: entryOk_def resolves_iff)

lemma allItems_resolved:
  "allItems feeds es acc = Inr all \<Longrightarrow>
   \<forall>p\<in>set es. \<exists>e s. p = Some e \<and> feeds (Source e) = Some (Some s)"
  by (induction feeds es acc rule: allItems.induct) (auto split: option.splits if_splits)

lemma addDescriptions_length:
  "addDescriptions es = Inr es' \<Longrightarrow> length es' = length es"
  by (induction es arbitrary: es') (auto split: sum.splits)

lemma appendEntries_iff:
  "(\<exists>m'. appendEntries es t is m = Inr m') = (\<forall>i\<in>set is. 0 \<le> i \<and> i < int (length es))"
proof
  assume "\<exists>m'. appendEntries es t is m = Inr m'"
  then show "\<forall>i\<in>set is. 0 \<le> i \<and> i < int (length es)"
    using appendEntries_Inr by blast
next
  assume "\<forall>i\<in>set is. 0 \<le> i \<and> i < int (length es)"
  then show "\<exists>m'. appendEntries es t is m = Inr m'"
    using appendEntries_ok by blast
qed

lemma bySource_iff:
  "(\<exists>m'. bySource feeds es ks m = Inr m') =
   (\<forall>k\<in>set ks. sourceOk feeds es k)"
proof (induction ks arbitrary: m)
  case Nil
  show ?case by simp
next
  case (Cons k ks)
  show ?case
  proof (cases "feeds k")
    case None
    with Cons.IH [of m] show ?thesis by (simp add: sourceOk_def)
  next
    case (Some p)
    show ?thesis
    proof (cases p)
      case None
      with Some show ?thesis by (simp add: sourceOk_def)
    next
      case s: (Some s)
      show ?thesis
      proof (cases "appendEntries es (Source.Title s) (Source.Entries s) m")
        case (Inl x)
        then have "\<not> inRange es s"
          using appendEntries_iff [of es "Source.Title s" "Source.Entries s" m]
          by (auto simp: inRange_def list_all_iff)
        with Some s Inl show ?thesis by (simp add: sourceOk_def)
      next
        case (Inr m1)
        then have "inRange es s"
          using appendEntries_iff [of es "Source.Title s" "Source.Entries s" m]
          by (auto simp: inRange_def list_all_iff)
        with Some s Inr Cons.IH [of m1] show ?thesis by (simp add: sourceOk_def)
      qed
    qed
  qed
qed

lemma addDescriptions_origin:
  assumes "addDescriptions es = Inr es'" and "p' \<in> set es'"
  shows "\<exists>e e'. Some e \<in> set es \<and> p' = Some e' \<and> Source e' = Source e"
proof -
  from assms(1) have "map describe es = map Inr es'" by (rule addDescriptions_map)
  with assms(2) have "Inr p' \<in> set (map describe es)" by simp
  then obtain p where p: "p \<in> set es" and d: "describe p = Inr p'" by auto
  from d obtain e where e: "p = Some e" by (cases p) (auto simp: describe_def)
  with d describe_Source [of e p'] p show ?thesis by auto
qed

lemma sourceOk_length:
  "length es' = length es \<Longrightarrow> sourceOk feeds es' k = sourceOk feeds es k"
  by (simp add: sourceOk_def inRange_def split: option.splits)

theorem processFeed_total:
  "(\<exists>st'. processFeed order allStr st = Inr st') =
   (\<exists>f. feed st = Some f \<and> wellFormed order f)"
proof
  assume "\<exists>st'. processFeed order allStr st = Inr st'"
  then obtain st' where r: "processFeed order allStr st = Inr st'" ..
  then obtain f es all prov m where
    f: "feed st = Some f" and
    d: "addDescriptions (Feed.Entries f) = Inr es" and
    a: "allItems (Feeds f) es [] = Inr all" and
    c: "addSources (Feeds f) (Sorted f) (provider st) = Inr prov" and
    b: "bySource (Feeds f) es order [allStr \<mapsto> all] = Inr m"
    by (rule processFeed_Inr)
  have "entryOk f p" if p: "p \<in> set (Feed.Entries f)" for p
  proof -
    from d have "\<forall>p\<in>set (Feed.Entries f). \<exists>p'. describe p = Inr p'"
      using addDescriptions_total by blast
    with p obtain e where e: "p = Some e" "stringOrAbsent (Meta e ''description'')"
      using describe_ok by blast
    with p have "Some e \<in> set (Feed.Entries f)" by simp
    from addDescriptions_Source [OF d this] obtain e' where
      "Some e' \<in> set es" "Source e' = Source e" by auto
    with allItems_resolved [OF a] have "\<exists>s. Feeds f (Source e) = Some (Some s)" by force
    with e show ?thesis by (simp add: entryOk_iff)
  qed
  then have 1: "list_all (entryOk f) (Feed.Entries f)" by (simp add: list_all_iff)
  from c have 2: "list_all (\<lambda>k. Feeds f k \<noteq> Some None) (Sorted f)"
    using addSources_Inr [of "Feeds f" "Sorted f" "provider st" prov] by (simp add: list_all_iff)
  from b have "\<forall>k\<in>set order. sourceOk (Feeds f) es k"
    using bySource_iff by blast
  then have 3: "list_all (sourceOk (Feeds f) (Feed.Entries f)) order"
    by (simp add: list_all_iff sourceOk_length [OF addDescriptions_length [OF d]])
  from 1 2 3 have "wellFormed order f" by (simp add: wellFormed_def)
  with f show "\<exists>f. feed st = Some f \<and> wellFormed order f" by blast
next
  assume "\<exists>f. feed st = Some f \<and> wellFormed order f"
  then obtain f where f: "feed st = Some f" and w: "wellFormed order f" by blast
  from w have 1: "\<forall>p\<in>set (Feed.Entries f). entryOk f p"
    and 2: "\<forall>k\<in>set (Sorted f). Feeds f k \<noteq> Some None"
    and 3: "\<forall>k\<in>set order. sourceOk (Feeds f) (Feed.Entries f) k"
    by (simp_all add: wellFormed_def list_all_iff)
  from 1 have "\<forall>p\<in>set (Feed.Entries f). \<exists>p'. describe p = Inr p'"
    by (auto simp: entryOk_iff describe_ok)
  then obtain es where d: "addDescriptions (Feed.Entries f) = Inr es"
    using addDescriptions_total by blast
  have "\<exists>e s. p = Some e \<and> Feeds f (Source e) = Some (Some s)" if "p \<in> set es" for p
  proof -
    from addDescriptions_origin [OF d that] obtain e e' where
      e: "Some e \<in> set (Feed.Entries f)" "p = Some e'" "Source e' = Source e" by blast
    from 1 e(1) have "entryOk f (Some e)" by blast
    then have "\<exists>s. Feeds f (Source e) = Some (Some s)" by (simp add: entryOk_iff)
    with e show ?thesis by simp
  qed
  then have "\<forall>p\<in>set es. \<exists>e s. p = Some e \<and> Feeds f (Source e) = Some (Some s)" by blast
  then have a: "allItems (Feeds f) es [] = Inr ([] @ filter (inAll (Feeds f)) es)"
    by (rule allItems_ok)
  from 2 obtain prov where c: "addSources (Feeds f) (Sorted f) (provider st) = Inr prov"
    using addSources_calls by blast
  from 3 have "\<forall>k\<in>set order. sourceOk (Feeds f) es k"
    by (simp add: sourceOk_length [OF addDescriptions_length [OF d]])
  then obtain m where
    b: "bySource (Feeds f) es order [allStr \<mapsto> [] @ filter (inAll (Feeds f)) es] = Inr m"
    using bySource_iff by blast
  from f d a c b show "\<exists>st'. processFeed order allStr st = Inr st'"
    by (simp add: processFeed_def)
qed

lemma appendEntries_other:
  assumes "appendEntries es t is m = Inr m'" and "is = [] \<or> t \<noteq> u"
  shows "m' u = m u"
  using appendEntries_Inr [OF assms(1)] assms(2) by auto

lemma appendEntries_bucket:
  assumes "appendEntries es t is m = Inr m'"
  shows "bucket m' t = bucket m t @ map (\<lambda>i. es ! nat i) is"
  using appendEntries_Inr [OF assms] by (auto simp: bucket_def)

lemma bySource_untouched:
  "bySource feeds es ks m = Inr m' \<Longrightarrow> \<forall>k\<in>set ks. \<not> touches feeds t k \<Longrightarrow> m' t = m t"
proof (induction ks arbitrary: m)
  case Nil
  then show ?case by simp
next
  case (Cons k ks)
  show ?case
  proof (cases "feeds k")
    case None
    with Cons show ?thesis by simp
  next
    case (Some p)
    with Cons.prems(1) obtain s m1 where
      p: "p = Some s" and
      a: "appendEntries es (Source.Title s) (Source.Entries s) m = Inr m1" and
      b: "bySource feeds es ks m1 = Inr m'"
      by (auto split: option.splits sum.splits)
    from Cons.prems(2) Some p have "Source.Entries s = [] \<or> Source.Title s \<noteq> t"
      by (simp add: touches_def)
    with a have "m1 t = m t" by (rule appendEntries_other)
    moreover from Cons.prems(2) have "\<forall>k\<in>set ks. \<not> touches feeds t k" by simp
    with b have "m' t = m1 t" by (rule Cons.IH)
    ultimately show ?thesis by simp
  qed
qed

lemma bySource_single:
  "bySource feeds es ks m = Inr m' \<Longrightarrow> distinct ks \<Longrightarrow> k \<in> set ks \<Longrightarrow>
   feeds k = Some (Some s) \<Longrightarrow>
   \<forall>k'\<in>set ks. k' \<noteq> k \<longrightarrow> \<not> touches feeds (Source.Title s) k' \<Longrightarrow>
   bucket m' (Source.Title s) =
     bucket m (Source.Title s) @ map (\<lambda>i. es ! nat i) (Source.Entries s)"
proof (induction ks arbitrary: m)
  case Nil
  then show ?case by simp
next
  case (Cons k0 ks)
  show ?case
  proof (cases "k0 = k")
    case True
    with Cons.prems(1,4) obtain m1 where
      a: "appendEntries es (Source.Title s) (Source.Entries s) m = Inr m1" and
      b: "bySource feeds es ks m1 = Inr m'"
      by (auto split: sum.splits)
    from Cons.prems(2,5) True have "\<forall>k'\<in>set ks. \<not> touches feeds (Source.Title s) k'"
      by auto
    with b have "m' (Source.Title s) = m1 (Source.Title s)" by (rule bySource_untouched)
    then have "bucket m' (Source.Title s) = bucket m1 (Source.Title s)"
      by (simp add: bucket_def)
    with appendEntries_bucket [OF a] show ?thesis by simp
  next
    case False
    with Cons.prems(3) have k: "k \<in> set ks" by simp
    from Cons.prems(2) have d: "distinct ks" by simp
    from Cons.prems(5) have o: "\<forall>k'\<in>set ks. k' \<noteq> k \<longrightarrow> \<not> touches feeds (Source.Title s) k'"
      by simp
    from Cons.prems(5) False have n: "\<not> touches feeds (Source.Title s) k0" by simp
    show ?thesis
    proof (cases "feeds k0")
      case None
      with Cons.prems(1) have "bySource feeds es ks m = Inr m'" by simp
      from Cons.IH [OF this d k Cons.prems(4) o] show ?thesis .
    next
      case (Some p)
      with Cons.prems(1) obtain s0 m1 where
        p: "p = Some s0" and
        a: "appendEntries es (Source.Title s0) (Source.Entries s0) m = Inr m1" and
        b: "bySource feeds es ks m1 = Inr m'"
        by (auto split: option.splits sum.splits)
      from n Some p have "Source.Entries s0 = [] \<or> Source.Title s0 \<noteq> Source.Title s"
        by (simp add: touches_def)
      with a have "m1 (Source.Title s) = m (Source.Title s)" by (rule appendEntries_other)
      then have "bucket m1 (Source.Title s) = bucket m (Source.Title s)"
        by (simp add: bucket_def)
      with Cons.IH [OF b d k Cons.prems(4) o] show ?thesis by simp
    qed
  qed
qed

theorem all_bucket:
  assumes "processFeed order allStr st = Inr st'" and "feed st = Some f"
    and "\<forall>k\<in>set order. \<not> touches (Feeds f) allStr k"
  shows "\<exists>f' m. feed st' = Some f' \<and> Items f' = Some m \<and>
           m allStr = Some (filter (inAll (Feeds f)) (Feed.Entries f'))"
proof -
  from assms(1) obtain f0 es all prov m where
    f: "feed st = Some f0" and
    a: "allItems (Feeds f0) es [] = Inr all" and
    b: "bySource (Feeds f0) es order [allStr \<mapsto> all] = Inr m" and
    s: "st' = st\<lparr>feed := Some (f0\<lparr>Feed.Entries := es, Items := Some m\<rparr>), provider := prov\<rparr>"
    by (rule processFeed_Inr)
  from f assms(2) have ff: "f0 = f" by simp
  from a have "all = filter (inAll (Feeds f)) es" unfolding ff using allItems_Inr by fastforce
  moreover from b assms(3) have "m allStr = [allStr \<mapsto> all] allStr"
    unfolding ff by (rule bySource_untouched)
  ultimately show ?thesis using s by simp
qed

theorem source_bucket:
  assumes "processFeed order allStr st = Inr st'"
    and "feed st = Some f" and "distinct order" and "k \<in> set order"
    and "Feeds f k = Some (Some s)" and "Source.Title s \<noteq> allStr"
    and "\<forall>k'\<in>set order. k' \<noteq> k \<longrightarrow> \<not> touches (Feeds f) (Source.Title s) k'"
  shows "\<exists>f' m. feed st' = Some f' \<and> Items f' = Some m \<and>
           bucket m (Source.Title s) = map (\<lambda>i. Feed.Entries f' ! nat i) (Source.Entries s)"
proof -
  from assms(1) obtain f0 es all prov m where
    f: "feed st = Some f0" and
    b: "bySource (Feeds f0) es order [allStr \<mapsto> all] = Inr m" and
    s: "st' = st\<lparr>feed := Some (f0\<lparr>Feed.Entries := es, Items := Some m\<rparr>), provider := prov\<rparr>"
    by (rule processFeed_Inr)
  from f assms(2) have ff: "f0 = f" by simp
  from b have "bucket m (Source.Title s) =
     bucket [allStr \<mapsto> all] (Source.Title s) @ map (\<lambda>i. es ! nat i) (Source.Entries s)"
    unfolding ff using assms(3,4,5,7) by (rule bySource_single)
  with assms(6) have "bucket m (Source.Title s) = map (\<lambda>i. es ! nat i) (Source.Entries s)"
    by (simp add: bucket_def)
  with s show ?thesis by simp
qed

section \<open>The claims\<close>

text \<open>
  Claim C1. The claim: after normalization the bucket under the caller's "all" label
  holds an entry exactly when its source key resolves to a known source that is not
  excluded, an entry whose source key is absent from the sources map is left out
  without a fault, and the entry order is kept.

  The code faults on such an entry: \<^verbatim>\<open>feed.Feeds[entry.Source]\<close> is \<^verbatim>\<open>nil\<close> for
  an absent key and line 209 reads \<^verbatim>\<open>ExcludeFromAll\<close> through it. In
  \<open>unknownSourceFeed\<close> the second entry names the source \<^verbatim>\<open>cnn\<close>, which the
  sources map does not have, and \<open>processFeed\<close> ends in a nil dereference.
  \<open>processFeed_missing_source\<close> shows the same for every document with such an entry;
  the third loop, lines 217 to 226, does test the key. For a normalization that
  completes, \<open>all_bucket\<close> gives the bucket: the entries that resolve to a source
  not excluded, in the order of the document, as long as the fourth loop appends
  nothing under the same label.
\<close>

theorem processFeed_unknown_source_panics:
  "processFeed [''bbc''] ''all'' (noFeed\<lparr>feed := Some unknownSourceFeed\<rparr>) = Inl NilDereference"
  by (simp add: processFeed_def unknownSourceFeed_def example_defs describe_def indexMeta_def)

text \<open>
  Claim C2. The claim: an entry index of a source that is out of bounds for the entries
  is skipped without a fault, the source's bucket only missing that entry.

  The code faults: line 231 indexes \<^verbatim>\<open>feed.Entries[i]\<close> with no bounds test. In
  \<open>badIndexFeed\<close> the source has the entry indices \<open>[99]\<close> and the document has three
  entries; \<open>processFeed\<close> ends in an index-out-of-range panic. \<open>processFeed_total\<close>
  has the indices in range among the conditions under which the normalization completes,
  and \<open>source_bucket\<close> gives the bucket of a source then: its entries in the order of
  its indices.
\<close>

theorem processFeed_bad_index_panics:
  "processFeed [''bbc''] ''all'' (noFeed\<lparr>feed := Some badIndexFeed\<rparr>) = Inl IndexOutOfRange"
  by (simp add: processFeed_def badIndexFeed_def example_defs describe_def indexMeta_def)

text \<open>
  Claim C3. Whenever a step of the fetch fails (building the request, building the
  proxied client, the transport, opening the gzip reader, reading the body, or
  deserializing the JSON), \<open>doGetFeed\<close> returns normally and leaves the package variable
  \<^verbatim>\<open>nil\<close>, whatever it held before the call, so \<open>CurrentFeed\<close> yields nothing. Each
  disjunct of the hypothesis is one failing step, after the steps before it succeeded.
\<close>

theorem doGetFeed_failure_clears_feed:
  fixes env :: env and st :: state and ep loc allStr proxyAddr :: string
  defines "u \<equiv> fst (getFeedURL env ep (if \<not> indexBool supportedLocales loc then en else loc)
                        (st\<lparr>feed := Some emptyFeed\<rparr>))"
  defines "h \<equiv> \<lambda>req. req\<lparr>Header := Header req @ [(''Accept-Encoding'', ''gzip'')]\<rparr>"
  defines "cl \<equiv> (if proxyAddr = '''' then Inr (Client '''') else HTTPClient env proxyAddr)"
  assumes "(\<exists>e. NewRequest env ''GET'' u = Inl e) \<or>
     (\<exists>e. cl = Inl e) \<or>
     (\<exists>req c e. NewRequest env ''GET'' u = Inr req \<and> cl = Inr c \<and> Do env c (h req) = Inl e) \<or>
     (\<exists>req c res e. NewRequest env ''GET'' u = Inr req \<and> cl = Inr c \<and>
        Do env c (h req) = Inr res \<and> NewReader env res = Inl e) \<or>
     (\<exists>req c res gz e. NewRequest env ''GET'' u = Inr req \<and> cl = Inr c \<and>
        Do env c (h req) = Inr res \<and> NewReader env res = Inr gz \<and> ReadAll env gz = Inl e) \<or>
     (\<exists>req c res gz contents e. NewRequest env ''GET'' u = Inr req \<and> cl = Inr c \<and>
        Do env c (h req) = Inr res \<and> NewReader env res = Inr gz \<and>
        ReadAll env gz = Inr contents \<and> Unmarshal env contents emptyFeed = Inl e)"
  shows "\<exists>st'. doGetFeed env order ep loc allStr proxyAddr st = Inr st' \<and>
           feed st' = None \<and> CurrentFeed st' = None"
proof -
  obtain u' st1 where g: "getFeedURL env ep (if \<not> indexBool supportedLocales loc then en else loc)
                        (st\<lparr>feed := Some emptyFeed\<rparr>) = (u', st1)"
    by (cases "getFeedURL env ep (if \<not> indexBool supportedLocales loc then en else loc)
                        (st\<lparr>feed := Some emptyFeed\<rparr>)")
  then have u: "u = u'" by (simp add: u_def)
  note defs = doGetFeed_def Let_def handleError_def CurrentFeed_def g
  show ?thesis
  proof (cases "NewRequest env ''GET'' u'")
    case (Inl e)
    then show ?thesis by (simp add: defs)
  next
    case req: (Inr req)
    show ?thesis
    proof (cases cl)
      case (Inl e)
      with req show ?thesis by (simp add: defs cl_def)
    next
      case c: (Inr c)
      show ?thesis
      proof (cases "Do env c (h req)")
        case (Inl e)
        with req c show ?thesis by (simp add: defs cl_def h_def)
      next
        case res: (Inr res)
        show ?thesis
        proof (cases "NewReader env res")
          case (Inl e)
          with req c res show ?thesis by (simp add: defs cl_def h_def)
        next
          case gz: (Inr gz)
          show ?thesis
          proof (cases "ReadAll env gz")
            case (Inl e)
            with req c res gz show ?thesis by (simp add: defs cl_def h_def)
          next
            case contents: (Inr contents)
            show ?thesis
            proof (cases "Unmarshal env contents emptyFeed")
              case (Inl e)
              with req c res gz contents show ?thesis by (simp add: defs cl_def h_def)
            next
              case (Inr f)
              with assms(4) req c res gz contents show ?thesis by (simp add: u)
            qed
          qed
        qed
      qed
    qed
  qed
qed

text \<open>
  The state \<open>populated\<close> holds a normalized document; a fetch whose JSON does not parse
  clears it.
\<close>

theorem doGetFeed_failure_clears_feed_witness:
  "feed populated = Some normalizedFeed \<and>
   (\<exists>st'. doGetFeed (exampleEnv ''US'' badJSON) [] defaultFeedEndpoint ''en_US'' ''all'' '''' populated =
            Inr st' \<and> feed st' = None \<and> CurrentFeed st' = None)"
  using doGetFeed_failure_clears_feed [where env = "exampleEnv ''US'' badJSON" and order = "[]"
      and ep = defaultFeedEndpoint and loc = "''en_US''" and allStr = "''all''"
      and proxyAddr = "''''" and st = populated]
  by (simp add: exampleEnv_def badJSON_def populated_def)



text \<open>
  Claim C6, as the spec states it: for a requested locale outside the supported set,
  the locale used to build the endpoint URL is \<^verbatim>\<open>en_US\<close>. It fails: for the locale
  \<^verbatim>\<open>xx\<close> and a geolocation that answers \<^verbatim>\<open>IR\<close>, the URL requested is the one of
  \<^verbatim>\<open>fa_IR\<close>, because \<open>getFeedURL\<close> passes the substituted \<^verbatim>\<open>en_US\<close> through
  \<open>determineLocale\<close>.
\<close>

theorem unsupported_locale_counterexample:
  "\<not> indexBool supportedLocales ''xx'' \<and>
   map_sum id requests
     (doGetFeed (exampleEnv ''IR'' emptyJSON) [] defaultFeedEndpoint ''xx'' ''all'' '''' noFeed) =
     Inr [''https://feeds.getiantem.org/fa_IR/feed.json''] \<and>
   ''https://feeds.getiantem.org/fa_IR/feed.json'' \<noteq> Sprintf defaultFeedEndpoint en"
  by (simp add: indexBool_def supportedLocales_def doGetFeed_def getFeedURL_def determineLocale_def
      exampleEnv_def emptyJSON_def noFeed_def en_def defaultFeedEndpoint_def foldOrbit_def
      handleError_def processFeed_def emptyFeed_def Let_def)

text \<open>
  Claim C6, amended. For a requested locale outside the supported set, \<open>doGetFeed\<close>
  behaves as it does for \<^verbatim>\<open>en_US\<close>; the locale used to build the URL is then the one
  \<open>determineLocale\<close> gives for \<^verbatim>\<open>en_US\<close>: \<^verbatim>\<open>fa_IR\<close> when the country looked up is
  IR, \<^verbatim>\<open>ms_MY\<close> when it is MY (in any case of the letters), and \<^verbatim>\<open>en_US\<close> for any
  other country or a failed lookup; that URL is the one requested.
\<close>

theorem unsupported_locale_uses_en:
  fixes env :: env and st :: state and ep loc allStr proxyAddr :: string
  defines "c \<equiv> GetCountry env (10 * Second)"
  defines "used \<equiv> (if c \<in> {''ir'', ''iR'', ''Ir'', ''IR''} then ''fa_IR''
                    else if c \<in> {''my'', ''mY'', ''My'', ''MY''} then ''ms_MY''
                    else en)"
  assumes "\<not> indexBool supportedLocales loc"
  shows "doGetFeed env order ep loc allStr proxyAddr st =
           doGetFeed env order ep en allStr proxyAddr st \<and>
         getFeedURL env ep en st = (Sprintf ep used, st\<lparr>lookups := lookups st @ [10 * Second]\<rparr>) \<and>
         (\<forall>st'. doGetFeed env order ep loc allStr proxyAddr st = Inr st' \<longrightarrow>
                requests st' = requests st @ [Sprintf ep used])"
proof -
  have d: "determineLocale env en st = (used, st\<lparr>lookups := lookups st @ [10 * Second]\<rparr>)"
    unfolding determineLocale_def Let_def c_def used_def EqualFold_ir EqualFold_my
    using EqualFold_en_en by (auto simp: en_def)
  have 1: "doGetFeed env order ep loc allStr proxyAddr st =
           doGetFeed env order ep en allStr proxyAddr st"
    using assms(3) supported_en by (simp add: doGetFeed_def)
  have 2: "getFeedURL env ep en st = (Sprintf ep used, st\<lparr>lookups := lookups st @ [10 * Second]\<rparr>)"
    by (simp add: getFeedURL_eq d)
  have 3: "requests st' = requests st @ [Sprintf ep used]"
    if "doGetFeed env order ep loc allStr proxyAddr st = Inr st'" for st'
    using doGetFeed_requests [OF that] assms(3) by (simp add: d)
  from 1 2 3 show ?thesis by blast
qed

theorem unsupported_locale_uses_en_witness:
  "\<not> indexBool supportedLocales ''xx'' \<and>
   doGetFeed (exampleEnv ''my'' badJSON) [] defaultFeedEndpoint ''xx'' ''all'' '''' noFeed =
     doGetFeed (exampleEnv ''my'' badJSON) [] defaultFeedEndpoint en ''all'' '''' noFeed \<and>
   getFeedURL (exampleEnv ''my'' badJSON) defaultFeedEndpoint en noFeed =
     (''https://feeds.getiantem.org/ms_MY/feed.json'', noFeed\<lparr>lookups := [10000000000]\<rparr>)"
  using unsupported_locale_uses_en [where env = "exampleEnv ''my'' badJSON" and order = "[]"
      and ep = defaultFeedEndpoint and loc = "''xx''" and allStr = "''all''"
      and proxyAddr = "''''" and st = noFeed]
  by (simp add: indexBool_def supportedLocales_def exampleEnv_def defaultFeedEndpoint_def
      noFeed_def Second_def)

text \<open>
  Claim C7. \<open>determineLocale\<close>: an empty default locale is treated as \<^verbatim>\<open>en_US\<close>. When
  the default locale equals \<^verbatim>\<open>en_US\<close> under \<^verbatim>\<open>strings.EqualFold\<close>, one lookup is made,
  with the timeout of ten seconds, and the country IR gives \<^verbatim>\<open>fa_IR\<close>, MY gives
  \<^verbatim>\<open>ms_MY\<close> (in any case of the letters), any other country and the empty country of a
  failed lookup give the default locale unchanged. Otherwise no lookup is made and the
  default locale is returned as it is. \<open>getFeedURL\<close> formats the endpoint with that
  locale. (That the lookup itself ends within its timeout is the geolocation service's
  matter; the timeout is the argument it is called with. \<open>EqualFold_en\<close> lists the
  default locales that equal \<^verbatim>\<open>en_US\<close> so.)
\<close>

theorem determineLocale_cases:
  fixes env :: env and st :: state and d ep :: string
  defines "c \<equiv> GetCountry env (10 * Second)"
  shows "determineLocale env '''' st = determineLocale env en st \<and>
    (EqualFold en d \<longrightarrow>
       determineLocale env d st =
         (if c \<in> {''ir'', ''iR'', ''Ir'', ''IR''} then ''fa_IR''
          else if c \<in> {''my'', ''mY'', ''My'', ''MY''} then ''ms_MY''
          else d,
          st\<lparr>lookups := lookups st @ [10 * Second]\<rparr>)) \<and>
    (d \<noteq> '''' \<and> \<not> EqualFold en d \<longrightarrow> determineLocale env d st = (d, st)) \<and>
    getFeedURL env ep d st =
      (Sprintf ep (fst (determineLocale env d st)), snd (determineLocale env d st))"
proof (intro conjI impI)
  show "determineLocale env '''' st = determineLocale env en st"
    by (simp add: determineLocale_def en_def)
next
  assume e: "EqualFold en d"
  then have "d \<noteq> ''''" by (rule EqualFold_en_nonempty)
  with e show "determineLocale env d st =
         (if c \<in> {''ir'', ''iR'', ''Ir'', ''IR''} then ''fa_IR''
          else if c \<in> {''my'', ''mY'', ''My'', ''MY''} then ''ms_MY''
          else d,
          st\<lparr>lookups := lookups st @ [10 * Second]\<rparr>)"
    unfolding determineLocale_def Let_def c_def EqualFold_ir EqualFold_my by auto
next
  assume "d \<noteq> '''' \<and> \<not> EqualFold en d"
  then show "determineLocale env d st = (d, st)"
    by (simp add: determineLocale_def)
next
  show "getFeedURL env ep d st =
      (Sprintf ep (fst (determineLocale env d st)), snd (determineLocale env d st))"
    by (simp add: getFeedURL_def split: prod.splits)
qed

theorem determineLocale_cases_witness:
  "EqualFold en ''EN_us'' \<and>
   determineLocale (exampleEnv ''Ir'' badJSON) ''EN_us'' noFeed =
     (''fa_IR'', noFeed\<lparr>lookups := [10000000000]\<rparr>) \<and>
   determineLocale (exampleEnv ''DE'' badJSON) ''EN_us'' noFeed =
     (''EN_us'', noFeed\<lparr>lookups := [10000000000]\<rparr>) \<and>
   \<not> EqualFold en ''zh_CN'' \<and>
   determineLocale (exampleEnv ''Ir'' badJSON) ''zh_CN'' noFeed = (''zh_CN'', noFeed)"
  using determineLocale_cases [where d = "''EN_us''" and env = "exampleEnv ''Ir'' badJSON"
      and st = noFeed and ep = "[]"]
    determineLocale_cases [where d = "''EN_us''" and env = "exampleEnv ''DE'' badJSON"
      and st = noFeed and ep = "[]"]
    determineLocale_cases [where d = "''zh_CN''" and env = "exampleEnv ''Ir'' badJSON"
      and st = noFeed and ep = "[]"]
  by (simp add: en_def foldOrbit_def exampleEnv_def noFeed_def Second_def)

text \<open>
  Claim C8. \<open>FeedByName\<close> makes no call and does not fault when the package variable is
  \<^verbatim>\<open>nil\<close>, when its \<open>Items\<close> map is \<^verbatim>\<open>nil\<close>, or when the name is not a key of it.
  Otherwise it calls \<^verbatim>\<open>AddFeed\<close> once for each entry stored under the name, in the
  stored order, with the entry's title, description, image and link. The entries stored
  are pointers; none of them is \<^verbatim>\<open>nil\<close> in a document that \<open>processFeed\<close> has
  normalized (third part), and that is what the second part assumes.
\<close>

theorem FeedByName_calls:
  "(feed st = None \<or> (\<exists>g. feed st = Some g \<and> (Items g = None \<or>
        (\<exists>n. Items g = Some n \<and> n name = None))) \<longrightarrow>
      FeedByName name st = Inr st) \<and>
   (feed st = Some f \<and> Items f = Some m \<and> m name = Some items \<and> None \<notin> set items \<longrightarrow>
      FeedByName name st =
        Inr (st\<lparr>retriever := retriever st @
               map (\<lambda>i. (FeedItem.Title i, Description i, Image i, Link i)) (map the items)\<rparr>)) \<and>
   (processFeed order allStr st0 = Inr st \<and> feed st = Some f \<and> Items f = Some m \<and>
      m name = Some items \<longrightarrow> None \<notin> set items)"
proof (intro conjI impI)
  assume "feed st = None \<or> (\<exists>g. feed st = Some g \<and> (Items g = None \<or>
        (\<exists>n. Items g = Some n \<and> n name = None)))"
  then show "FeedByName name st = Inr st"
    by (auto simp: FeedByName_def)
next
  assume a: "feed st = Some f \<and> Items f = Some m \<and> m name = Some items \<and> None \<notin> set items"
  then have "addFeeds items (retriever st) =
      Inr (retriever st @ map (\<lambda>i. (FeedItem.Title i, Description i, Image i, Link i)) (map the items))"
    by (simp add: addFeeds_calls)
  with a show "FeedByName name st =
        Inr (st\<lparr>retriever := retriever st @
               map (\<lambda>i. (FeedItem.Title i, Description i, Image i, Link i)) (map the items)\<rparr>)"
    by (simp add: FeedByName_def)
next
  assume a: "processFeed order allStr st0 = Inr st \<and> feed st = Some f \<and> Items f = Some m \<and>
      m name = Some items"
  then have "\<exists>f m. feed st = Some f \<and> Items f = Some m \<and> noNil m"
    using processFeed_noNil by blast
  with a show "None \<notin> set items"
    by (auto simp: noNil_def)
qed

theorem FeedByName_calls_witness:
  "FeedByName ''BBC'' noFeed = Inr noFeed \<and>
   FeedByName ''CNN'' populated = Inr populated \<and>
   FeedByName ''BBC'' populated =
     Inr (populated\<lparr>retriever :=
            [(''b'', ''cb'', ''b.png'', ''http://example.org/b''),
             (''a'', ''hi'', ''a.png'', ''http://example.org/a'')]\<rparr>) \<and>
   None \<notin> set [Some (normalizedItems ! 1), Some (normalizedItems ! 0)]"
  using FeedByName_calls [where st = noFeed and name = "''BBC''" and f = emptyFeed
      and m = Map.empty and items = "[]" and order = "[]" and allStr = "''all''" and ?st0.0 = noFeed]
    FeedByName_calls [where st = populated and name = "''CNN''" and f = emptyFeed
      and m = Map.empty and items = "[]" and order = "[]" and allStr = "''all''" and ?st0.0 = noFeed]
    FeedByName_calls [where st = populated and name = "''BBC''" and f = normalizedFeed and m =
      "[''all'' \<mapsto> [Some (normalizedItems ! 0), Some (normalizedItems ! 1)],
        ''BBC'' \<mapsto> [Some (normalizedItems ! 1), Some (normalizedItems ! 0)],
        ''NYT'' \<mapsto> [Some (normalizedItems ! 2)]]"
      and items = "[Some (normalizedItems ! 1), Some (normalizedItems ! 0)]"
      and order = "[''bbc'', ''nyt'', ''old'']" and allStr = "''all''"
      and ?st0.0 = "noFeed\<lparr>feed := Some exampleFeed\<rparr>"]
    example_run
  by (simp add: populated_def noFeed_def normalizedFeed_def normalizedItems_def exampleItem_def)



text \<open>
  Claim C10. The description step completes exactly when every entry is there and its
  \<^verbatim>\<open>meta["description"]\<close> is absent, \<^verbatim>\<open>null\<close> or a string. On an entry whose
  \<^verbatim>\<open>meta["description"]\<close> is anything else the type assertion panics, and so does the
  normalization of every document that has such an entry; it does not fall back to the
  content. \<open>numberDescriptionFeed\<close>, whose entry has a number there, is such a document.
\<close>

theorem description_type_assertion:
  "((\<exists>es'. addDescriptions es = Inr es') =
      (\<forall>p\<in>set es. \<exists>e. p = Some e \<and> stringOrAbsent (Meta e ''description''))) \<and>
   (describe (Some e) = Inl TypeAssertion) = (\<not> stringOrAbsent (Meta e ''description'')) \<and>
   (feed st = Some f \<and> Some e \<in> set (Feed.Entries f) \<and>
      \<not> stringOrAbsent (Meta e ''description'') \<longrightarrow>
      (\<exists>x. processFeed order allStr st = Inl x)) \<and>
   processFeed [''bbc''] ''all'' (noFeed\<lparr>feed := Some numberDescriptionFeed\<rparr>) = Inl TypeAssertion"
proof (intro conjI impI)
  show "(\<exists>es'. addDescriptions es = Inr es') =
      (\<forall>p\<in>set es. \<exists>e. p = Some e \<and> stringOrAbsent (Meta e ''description''))"
    by (simp add: addDescriptions_total describe_ok)
next
  show "(describe (Some e) = Inl TypeAssertion) = (\<not> stringOrAbsent (Meta e ''description''))"
    by (rule describe_TypeAssertion)
next
  assume a: "feed st = Some f \<and> Some e \<in> set (Feed.Entries f) \<and>
      \<not> stringOrAbsent (Meta e ''description'')"
  then have "describe (Some e) = Inl TypeAssertion" by (simp add: describe_TypeAssertion)
  with a have "\<exists>y. addDescriptions (Feed.Entries f) = Inl y"
    using addDescriptions_fault by blast
  with a show "\<exists>x. processFeed order allStr st = Inl x"
    by (auto simp: processFeed_def)
next
  show "processFeed [''bbc''] ''all'' (noFeed\<lparr>feed := Some numberDescriptionFeed\<rparr>) = Inl TypeAssertion"
    by (simp add: processFeed_def numberDescriptionFeed_def example_defs describe_def
        indexMeta_def assertString_def)
qed

theorem description_type_assertion_witness:
  "(\<exists>es'. addDescriptions (Feed.Entries exampleFeed) = Inr es') \<and>
   \<not> (\<exists>es'. addDescriptions (Feed.Entries numberDescriptionFeed) = Inr es') \<and>
   describe (Some (exampleItem ''a'' ''bbc'' [''description'' \<mapsto> JNumber 0] ''ca'')) =
     Inl TypeAssertion \<and>
   (\<exists>x. processFeed [''bbc''] ''all'' (noFeed\<lparr>feed := Some numberDescriptionFeed\<rparr>) = Inl x)"
  using description_type_assertion [where es = "Feed.Entries exampleFeed" and e =
      "exampleItem ''a'' ''bbc'' [''description'' \<mapsto> JNumber 0] ''ca''"
      and st = "noFeed\<lparr>feed := Some numberDescriptionFeed\<rparr>" and f = numberDescriptionFeed
      and order = "[''bbc'']" and allStr = "''all''"]
    description_type_assertion [where es = "Feed.Entries numberDescriptionFeed" and e =
      "exampleItem ''a'' ''bbc'' [''description'' \<mapsto> JNumber 0] ''ca''"
      and st = "noFeed\<lparr>feed := Some numberDescriptionFeed\<rparr>" and f = numberDescriptionFeed
      and order = "[''bbc'']" and allStr = "''all''"]
  by (simp add: exampleFeed_def numberDescriptionFeed_def exampleItem_def noFeed_def
      stringOrAbsent_def)

end
